theory Spec2Isabelle
  imports Main "HOL-Library.AList" "HOL-Library.Char_ord" "HOL-Library.List_Lexorder"
begin

text \<open>
  A model of the command router of discorb, the class \<^verbatim>\<open>Bot\<close>: its parser, its tree
  of commands with the strict and the weak walk, its state container, and the
  dispatcher \<^verbatim>\<open>receive\<close> with its help and error replies. Every function of the
  class is a function here that takes the bot and returns what the method returns
  together with the bot after the call and the effects on the outside.
\<close>

section \<open>Strings as the router uses them\<close>

text \<open>
  A JavaScript string is modelled as a \<^typ>\<open>string\<close> (a list of characters); the model
  covers the ASCII range. The white space of \<^verbatim>\<open>String.prototype.trim\<close> and of the
  regular expression class \<^verbatim>\<open>\s\<close> is the same set of characters; in the ASCII range
  it is tab, line feed, vertical tab, form feed, carriage return and space.
\<close>

definition is_space :: "char \<Rightarrow> bool" where
  "is_space c \<longleftrightarrow>
     c = CHR 0x09 \<or> c = CHR 0x0A \<or> c = CHR 0x0B \<or> c = CHR 0x0C \<or> c = CHR 0x0D \<or> c = CHR '' ''"

text \<open>\<^verbatim>\<open>message.startsWith(prefix)\<close>\<close>

definition startsWith :: "string \<Rightarrow> string \<Rightarrow> bool" where
  "startsWith s p \<longleftrightarrow> take (length p) s = p"

text \<open>\<^verbatim>\<open>s.trim()\<close>: white space is removed from both ends.\<close>

definition trim :: "string \<Rightarrow> string" where
  "trim s = rev (dropWhile is_space (rev (dropWhile is_space s)))"

text \<open>
  \<^verbatim>\<open>s.replace(/\s+/g, ' ')\<close>: every maximal run of white space becomes one space.
\<close>

function collapse :: "string \<Rightarrow> string" where
  "collapse [] = []"
| "collapse (c # cs) =
     (if is_space c then CHR '' '' # collapse (dropWhile is_space cs) else c # collapse cs)"
  by pat_completeness auto
termination
  by (relation "measure length") (auto simp: length_dropWhile_le less_Suc_eq_le)

text \<open>
  \<^verbatim>\<open>s.split(' ')\<close>: the pieces between single spaces; the result is never empty, and
  the empty string gives one empty piece.
\<close>

fun split_sp :: "string \<Rightarrow> string list" where
  "split_sp [] = [[]]"
| "split_sp (c # cs) =
     (if c = CHR '' '' then [] # split_sp cs
      else (c # hd (split_sp cs)) # tl (split_sp cs))"

text \<open>\<^verbatim>\<open>parts.join(sep)\<close>\<close>

fun join :: "'a list \<Rightarrow> 'a list list \<Rightarrow> 'a list" where
  "join sep [] = []"
| "join sep [x] = x"
| "join sep (x # y # ys) = x @ sep @ join sep (y # ys)"

section \<open>The parser\<close>

text \<open>
  \<^verbatim>\<open>Bot.parse\<close>, with the configured prefix as first argument:
  \<^verbatim>\<open>
  if (message.startsWith(this.prefix)) {
    const splits = message.trim().replace(/\s+/g, ' ').split(' ')
    if (splits.length > 0 && splits[0] !== this.prefix) {
      splits[0] = splits[0].slice(this.prefix.length)
      return splits
    }
  }
  return []
  \<close>
\<close>

definition parse :: "string \<Rightarrow> string \<Rightarrow> string list" where
  "parse pfx message =
     (if startsWith message pfx then
        (let splits = split_sp (collapse (trim message)) in
           if length splits > 0 \<and> splits ! 0 \<noteq> pfx
           then splits[0 := drop (length pfx) (splits ! 0)]
           else [])
      else [])"

text \<open>
  The words of a message: its maximal runs of characters that are not white space. The
  parser's tokens are compared with them.
\<close>

function words :: "string \<Rightarrow> string list" where
  "words s =
     (case dropWhile is_space s of
        [] \<Rightarrow> []
      | t # ts \<Rightarrow> takeWhile (\<lambda>c. \<not> is_space c) (t # ts)
                 # words (dropWhile (\<lambda>c. \<not> is_space c) (t # ts)))"
  by pat_completeness auto
termination
proof (relation "measure length", goal_cases)
  case 1
  show ?case by simp
next
  case (2 s t ts)
  have "length (dropWhile (\<lambda>c. \<not> is_space c) (t # ts)) \<le> length (t # ts)"
    by (rule length_dropWhile_le)
  moreover have "\<not> is_space t"
    using 2 hd_dropWhile[of is_space s] by (metis list.distinct(1) list.sel(1))
  ultimately have "length (dropWhile (\<lambda>c. \<not> is_space c) (t # ts)) \<le> length ts"
    using length_dropWhile_le[of "\<lambda>c. \<not> is_space c" ts] by simp
  moreover have "length (t # ts) \<le> length s"
    using 2 length_dropWhile_le[of is_space s] by metis
  ultimately show ?case by simp
qed

declare words.simps [simp del]

section \<open>The data model\<close>

text \<open>
  A JavaScript \<^verbatim>\<open>Error\<close> carries its message. A function value (a command's action,
  a help generator, a state listener) is represented by its identity, a number; what
  calling it does is looked up in an environment (see \<open>env\<close> below).
\<close>

datatype error = Error string

text \<open>
  \<^verbatim>\<open>Help<S> = HelpMessage | ((this: Bot<S>) => HelpMessage | Promise<HelpMessage>)\<close>:
  a static message, or a function producing one.
\<close>

datatype Help = Static string | Dynamic nat

text \<open>
  \<^verbatim>\<open>interface Command { action; sub: Record<string, Command>; help?: Help }\<close>.
  A \<^verbatim>\<open>Record<string, Command>\<close> is an association list in insertion order with
  unique keys: \<^const>\<open>map_of\<close> reads a key (\<open>None\<close> for \<^verbatim>\<open>undefined\<close>) and
  \<^const>\<open>AList.update\<close> assigns one, in place when the key exists and at the end
  otherwise. Only own properties are modelled: segment names that a JavaScript object
  inherits from \<^verbatim>\<open>Object.prototype\<close> (such as \<^verbatim>\<open>constructor\<close>) are outside the model.
  Nodes are not shared between paths, so a node is identified by its path.
\<close>

datatype command =
  Command (action: nat) (sub: "(string \<times> command) list") (help_of: "Help option")

text \<open>\<^verbatim>\<open>interface Plugin { command: string; action; sub?; help? }\<close>; the overloads
  \<^verbatim>\<open>register(commandPath, action)\<close> and \<^verbatim>\<open>register(commandPath, action, help)\<close> are the
  plugins without \<open>sub\<close>.\<close>

record plugin =
  plugin_command :: string
  plugin_action :: nat
  plugin_sub :: "(string \<times> command) list option"
  plugin_help :: "Help option"

text \<open>\<^verbatim>\<open>interface CommandsThrough { through: string[]; command?: Command }\<close>\<close>

record commandsThrough =
  through :: "string list"
  command :: "command option"

text \<open>The part of a discord.js \<^verbatim>\<open>Message\<close> that the router reads.\<close>

record message =
  author_bot :: bool
  content :: string

text \<open>\<^verbatim>\<open>interface Request { message; components; commands; command?; rest; args }\<close>\<close>

record request =
  req_message :: message
  req_components :: "string list"
  req_commands :: "string list"
  req_command :: "command option"
  req_rest :: string
  req_args :: "string list"

text \<open>
  The bot. Its state is \<^verbatim>\<open>undefined\<close> (\<open>None\<close>) until the first \<^verbatim>\<open>setState\<close>, then an
  object: a map from keys to values of any type \<open>'v\<close>. The set of state listeners is
  a JavaScript \<^verbatim>\<open>Set\<close>: a list without duplicates, in insertion order.
\<close>

record 'v bot =
  prefix :: string
  commands :: "(string \<times> command) list"
  state :: "(string \<rightharpoonup> 'v) option"
  invalidCommandError :: string
  errorMessage :: string
  stateListeners :: "nat list"

record constructorOptions =
  opt_prefix :: string
  opt_invalidCommandError :: "string option"
  opt_errorMessage :: "string option"

definition new_Bot :: "constructorOptions \<Rightarrow> 'v bot" where
  "new_Bot options =
     \<lparr>prefix = opt_prefix options,
      commands = [],
      state = None,
      invalidCommandError =
        (case opt_invalidCommandError options of
           None \<Rightarrow> ''I've checked my data banks and could not find record of that command. Maybe you should check yours?''
         | Some m \<Rightarrow> m),
      errorMessage =
        (case opt_errorMessage options of
           None \<Rightarrow> ''Unexpected error completing your request. Check console for error log.''
         | Some m \<Rightarrow> m),
      stateListeners = []\<rparr>"

text \<open>
  What calling a function value does, as far as the router can see: it returns (or its
  promise resolves), it throws synchronously, or it returns a promise that rejects.
  The effects of a called function on the bot itself are not part of the model.
\<close>

datatype outcome = Returns | Throws error | Rejects error

definition throws :: "outcome \<Rightarrow> bool" where
  "throws out = (case out of Throws _ \<Rightarrow> True | _ \<Rightarrow> False)"

text \<open>
  The environment gives every function value its behaviour; each is called with the bot
  as \<^verbatim>\<open>this\<close>. \<open>host_regexp\<close> stands for the host's \<^verbatim>\<open>RegExp\<close> on the patterns
  that the model of regular expressions below does not cover: it throws a
  \<^verbatim>\<open>SyntaxError\<close> or yields what \<^verbatim>\<open>s.replace(re, '')\<close> computes.
\<close>

record 'v env =
  call_action :: "nat \<Rightarrow> 'v bot \<Rightarrow> request \<Rightarrow> outcome"
  call_help :: "nat \<Rightarrow> 'v bot \<Rightarrow> error + string"
  call_listener :: "nat \<Rightarrow> 'v bot \<Rightarrow> (string \<rightharpoonup> 'v) option \<Rightarrow> (string \<rightharpoonup> 'v) \<Rightarrow> outcome"
  host_regexp :: "string \<Rightarrow> error + (string \<Rightarrow> string)"

text \<open>What the router does to the outside, in order.\<close>

datatype payload = Text string | Embed string "(string \<times> string) list" | Undefined

datatype event =
  Invoked nat request
| HelpCalled nat
| Replied payload
| ConsoleError error

text \<open>A call of a state listener: the listener, the state that the bot has during the
  call, and the two arguments \<^verbatim>\<open>previousState\<close> and \<^verbatim>\<open>nextState\<close>.\<close>

datatype 'v notification =
  Notified (notified_listener: nat) (notified_this_state: "(string \<rightharpoonup> 'v) option")
    (notified_previous: "(string \<rightharpoonup> 'v) option") (notified_next: "string \<rightharpoonup> 'v")

text \<open>How \<^verbatim>\<open>receive\<close> ends: its promise resolves to \<^verbatim>\<open>false\<close>, resolves to nothing, or
  rejects.\<close>

datatype completion = RetFalse | RetVoid | Rejected error

section \<open>The state container\<close>

text \<open>\<^verbatim>\<open>onStateUpdate(action) { this.stateListeners.add(action); return this }\<close>\<close>

definition onStateUpdate :: "nat \<Rightarrow> 'v bot \<Rightarrow> 'v bot" where
  "onStateUpdate l b =
     b\<lparr>stateListeners :=
         (if l \<in> set (stateListeners b) then stateListeners b else stateListeners b @ [l])\<rparr>"

text \<open>
  \<^verbatim>\<open>dispatchStateUpdate(previousState, newState) {
    this.stateListeners.forEach((action) => { action.call(this, previousState, newState) }) }\<close>
  The result of a listener is not awaited: a rejected promise goes unnoticed, a
  synchronous throw ends the \<^verbatim>\<open>forEach\<close> and leaves the function.
\<close>

fun notify ::
  "'v env \<Rightarrow> 'v bot \<Rightarrow> (string \<rightharpoonup> 'v) option \<Rightarrow> (string \<rightharpoonup> 'v) \<Rightarrow> nat list
     \<Rightarrow> error option \<times> 'v notification list" where
  "notify e this previous nxt [] = (None, [])"
| "notify e this previous nxt (l # ls) =
     (case call_listener e l this previous nxt of
        Throws err \<Rightarrow> (Some err, [Notified l (state this) previous nxt])
      | Returns \<Rightarrow>
          (fst (notify e this previous nxt ls),
           Notified l (state this) previous nxt # snd (notify e this previous nxt ls))
      | Rejects err \<Rightarrow>
          (fst (notify e this previous nxt ls),
           Notified l (state this) previous nxt # snd (notify e this previous nxt ls)))"

definition dispatchStateUpdate ::
  "'v env \<Rightarrow> 'v bot \<Rightarrow> (string \<rightharpoonup> 'v) option \<Rightarrow> (string \<rightharpoonup> 'v)
     \<Rightarrow> error option \<times> 'v notification list" where
  "dispatchStateUpdate e this previousState newState =
     notify e this previousState newState (stateListeners this)"

text \<open>
  \<^verbatim>\<open>setState(state) {
    const previous = this.state
    const next = { ...previous, ...state }
    this.state = next
    this.dispatchStateUpdate(previous, next)
    return this }\<close>
  Spreading \<^verbatim>\<open>undefined\<close> adds no key. The result is the error thrown, if any, the
  bot after the call, and the listener calls made.
\<close>

definition setState ::
  "'v env \<Rightarrow> (string \<rightharpoonup> 'v) \<Rightarrow> 'v bot \<Rightarrow> error option \<times> 'v bot \<times> 'v notification list" where
  "setState e partial b =
     (let previous = state b;
          nxt = (case previous of None \<Rightarrow> Map.empty | Some s \<Rightarrow> s) ++ partial;
          b' = b\<lparr>state := Some nxt\<rparr>;
          r = dispatchStateUpdate e b' previous nxt
      in (fst r, b', snd r))"


section \<open>The command tree\<close>

text \<open>
  One step of both walks:
  \<^verbatim>\<open>current = current != undefined ? current.sub[command] : this.commands[command]\<close>
\<close>

definition dive_step ::
  "(string \<times> command) list \<Rightarrow> command option \<Rightarrow> string \<Rightarrow> command option" where
  "dive_step root current c =
     (case current of None \<Rightarrow> map_of root c | Some cur \<Rightarrow> map_of (sub cur) c)"

text \<open>
  \<^verbatim>\<open>strictDive(commands) {
    let current
    for (const command of commands) {
      current = current != undefined ? current.sub[command] : this.commands[command]
      if (current == undefined) { break }
    }
    if (current != undefined) { return current }
    else { throw new Error('Unable to follow commands') } }\<close>
\<close>

fun strictDive_loop ::
  "(string \<times> command) list \<Rightarrow> command option \<Rightarrow> string list \<Rightarrow> command option" where
  "strictDive_loop root current [] = current"
| "strictDive_loop root current (c # cs) =
     (case dive_step root current c of
        None \<Rightarrow> None
      | Some n \<Rightarrow> strictDive_loop root (Some n) cs)"

definition strictDive :: "'v bot \<Rightarrow> string list \<Rightarrow> error + command" where
  "strictDive b cs =
     (case strictDive_loop (commands b) None cs of
        Some c \<Rightarrow> Inr c
      | None \<Rightarrow> Inl (Error ''Unable to follow commands''))"

text \<open>
  \<^verbatim>\<open>weakDive(commands) {
    let last, current
    const through = []
    for (const command of commands) {
      last = current
      current = current != undefined ? current.sub[command] : this.commands[command]
      if (current == undefined) { return { through, command: last } }
      through.push(command)
    }
    return { through, command: current } }\<close>
  \<open>last\<close> is assigned at the start of every round from \<open>current\<close> and read in the
  same round only.
\<close>

fun weakDive_loop ::
  "(string \<times> command) list \<Rightarrow> command option \<Rightarrow> string list \<Rightarrow> string list
     \<Rightarrow> commandsThrough" where
  "weakDive_loop root current thr [] = \<lparr>through = thr, command = current\<rparr>"
| "weakDive_loop root current thr (c # cs) =
     (case dive_step root current c of
        None \<Rightarrow> \<lparr>through = thr, command = current\<rparr>
      | Some n \<Rightarrow> weakDive_loop root (Some n) (thr @ [c]) cs)"

definition weakDive :: "'v bot \<Rightarrow> string list \<Rightarrow> commandsThrough" where
  "weakDive b cs = weakDive_loop (commands b) None [] cs"

text \<open>
  An assignment through a node found by a walk (\<^verbatim>\<open>cmd.command.sub[key] = newCmd\<close>,
  \<^verbatim>\<open>cmd.help = help\<close>) changes the node at the path walked: \<open>update_node path f\<close>
  replaces the node at \<open>path\<close> by \<open>f\<close> of it and leaves a tree without that path as
  it is.
\<close>

fun update_node ::
  "string list \<Rightarrow> (command \<Rightarrow> command) \<Rightarrow> (string \<times> command) list
     \<Rightarrow> (string \<times> command) list" where
  "update_node [] f root = root"
| "update_node [k] f root =
     (case map_of root k of None \<Rightarrow> root | Some c \<Rightarrow> AList.update k (f c) root)"
| "update_node (k # k' # ks) f root =
     (case map_of root k of
        None \<Rightarrow> root
      | Some c \<Rightarrow>
          AList.update k (Command (action c) (update_node (k' # ks) f (sub c)) (help_of c)) root)"

text \<open>
  \<^verbatim>\<open>register(...arguments_) {
    ...
    const commands = commandPath.split(' ')
    const cmd = this.weakDive(commands)
    const newCmd = { action, sub: sub ?? {}, help }
    if (cmd.command == undefined && commands.length === 1) {
      this.commands[commands[commands.length - 1]] = newCmd
    } else if (cmd.command != undefined && cmd.through.length === commands.length - 1) {
      cmd.command.sub[commands[commands.length - 1]] = newCmd
    } else {
      throw new Error('Unable to follow commands')
    }
    return this }\<close>
  The result is the error thrown, if any, and the bot after the call.
\<close>

definition register :: "plugin \<Rightarrow> 'v bot \<Rightarrow> error option \<times> 'v bot" where
  "register options b =
     (let cmds = split_sp (plugin_command options);
          cmd = weakDive b cmds;
          newCmd = Command (plugin_action options)
                     (case plugin_sub options of None \<Rightarrow> [] | Some s \<Rightarrow> s)
                     (plugin_help options)
      in if command cmd = None \<and> length cmds = 1 then
           (None, b\<lparr>commands := AList.update (cmds ! (length cmds - 1)) newCmd (commands b)\<rparr>)
         else if command cmd \<noteq> None \<and> length (through cmd) = length cmds - 1 then
           (None,
            b\<lparr>commands :=
                update_node (through cmd)
                  (\<lambda>c. Command (action c)
                         (AList.update (cmds ! (length cmds - 1)) newCmd (sub c)) (help_of c))
                  (commands b)\<rparr>)
         else (Some (Error ''Unable to follow commands''), b))"

text \<open>
  \<^verbatim>\<open>help(commandPath, help) {
    const commands = commandPath.split(' ')
    const cmd = this.strictDive(commands)
    cmd.help = help
    return this }\<close>
\<close>

definition setHelp :: "string \<Rightarrow> Help \<Rightarrow> 'v bot \<Rightarrow> error option \<times> 'v bot" where
  "setHelp commandPath h b =
     (case strictDive b (split_sp commandPath) of
        Inl e \<Rightarrow> (Some e, b)
      | Inr _ \<Rightarrow>
          (None,
           b\<lparr>commands :=
               update_node (split_sp commandPath)
                 (\<lambda>c. Command (action c) (sub c) (Some h)) (commands b)\<rparr>))"

section \<open>The regular expression of the dispatcher\<close>

text \<open>
  \<^verbatim>\<open>receive\<close> builds a regular expression from the prefix and the path walked, without
  escaping either. The model covers the patterns made of literal characters, \<^verbatim>\<open>^\<close>,
  \<^verbatim>\<open>$\<close>, \<^verbatim>\<open>.\<close>, \<^verbatim>\<open>\s+\<close> and \<^verbatim>\<open>\s*\<close>, matched as JavaScript does without flags:
  greedy, backtracking, the leftmost match first. A pattern with any other
  metacharacter is left to \<open>host_regexp\<close>.
\<close>

datatype re_item = Lit char | AnyChar | Bol | Eol | SpacesPlus | SpacesStar

definition re_meta :: "char \<Rightarrow> bool" where
  "re_meta c \<longleftrightarrow> c \<in> set [CHR 0x5C, CHR ''*'', CHR ''+'', CHR ''?'', CHR ''('', CHR '')'',
                         CHR ''['', CHR '']'', CHR ''{'', CHR ''}'', CHR ''|'']"

definition re_atom :: "char \<Rightarrow> re_item" where
  "re_atom c =
     (if c = CHR ''^'' then Bol else if c = CHR ''$'' then Eol
      else if c = CHR ''.'' then AnyChar else Lit c)"

fun re_parse :: "string \<Rightarrow> re_item list option" where
  "re_parse [] = Some []"
| "re_parse (c # cs) =
     (if c = CHR 0x5C then
        (case cs of
           s # q # r \<Rightarrow>
             if s = CHR ''s'' \<and> q = CHR ''+'' then map_option (Cons SpacesPlus) (re_parse r)
             else if s = CHR ''s'' \<and> q = CHR ''*'' then map_option (Cons SpacesStar) (re_parse r)
             else None
         | _ \<Rightarrow> None)
      else if re_meta c then None
      else map_option (Cons (re_atom c)) (re_parse cs))"

fun first_some :: "('a \<Rightarrow> 'b option) \<Rightarrow> 'a list \<Rightarrow> 'b option" where
  "first_some f [] = None"
| "first_some f (x # xs) = (case f x of Some y \<Rightarrow> Some y | None \<Rightarrow> first_some f xs)"

text \<open>
  \<open>re_match items at_start s\<close>: the input left after the first way the items match at
  the front of \<open>s\<close>; \<open>at_start\<close> tells whether \<open>s\<close> is the whole input.
\<close>

fun re_match :: "re_item list \<Rightarrow> bool \<Rightarrow> string \<Rightarrow> string option" where
  "re_match [] at_start s = Some s"
| "re_match (Lit c # r) at_start s =
     (case s of [] \<Rightarrow> None | x # xs \<Rightarrow> if x = c then re_match r False xs else None)"
| "re_match (AnyChar # r) at_start s =
     (case s of
        [] \<Rightarrow> None
      | x # xs \<Rightarrow> if x = CHR 0x0A \<or> x = CHR 0x0D then None else re_match r False xs)"
| "re_match (Bol # r) at_start s = (if at_start then re_match r at_start s else None)"
| "re_match (Eol # r) at_start s = (if s = [] then re_match r at_start s else None)"
| "re_match (SpacesPlus # r) at_start s =
     first_some (\<lambda>k. re_match r False (drop k s))
       (rev [1 ..< Suc (length (takeWhile is_space s))])"
| "re_match (SpacesStar # r) at_start s =
     first_some (\<lambda>k. re_match r (at_start \<and> k = 0) (drop k s))
       (rev [0 ..< Suc (length (takeWhile is_space s))])"

text \<open>The leftmost position where the items match: what is before the match and what is
  after it.\<close>

fun re_search :: "re_item list \<Rightarrow> bool \<Rightarrow> string \<Rightarrow> string \<Rightarrow> (string \<times> string) option" where
  "re_search items at_start skipped [] =
     (case re_match items at_start [] of Some r \<Rightarrow> Some (skipped, r) | None \<Rightarrow> None)"
| "re_search items at_start skipped (x # xs) =
     (case re_match items at_start (x # xs) of
        Some r \<Rightarrow> Some (skipped, r)
      | None \<Rightarrow> re_search items False (skipped @ [x]) xs)"

text \<open>\<^verbatim>\<open>s.replace(re, '')\<close> for a regular expression without the global flag.\<close>

definition re_remove_first :: "re_item list \<Rightarrow> string \<Rightarrow> string" where
  "re_remove_first items s =
     (case re_search items True [] s of None \<Rightarrow> s | Some (skipped, left) \<Rightarrow> skipped @ left)"

text \<open>\<^verbatim>\<open>new RegExp(source)\<close>, as the function that removes its first match.\<close>

definition regexp :: "'v env \<Rightarrow> string \<Rightarrow> error + (string \<Rightarrow> string)" where
  "regexp e source =
     (case re_parse source of
        Some items \<Rightarrow> Inr (re_remove_first items)
      | None \<Rightarrow> host_regexp e source)"

text \<open>The source \<^verbatim>\<open>`^${this.prefix}${through.join('\\s+')}\\s*`\<close>\<close>

definition rest_pattern :: "string \<Rightarrow> string list \<Rightarrow> string" where
  "rest_pattern pfx thr =
     ''^'' @ pfx @ join [CHR 0x5C, CHR ''s'', CHR ''+''] thr @ [CHR 0x5C, CHR ''s'', CHR ''*'']"

text \<open>
  What \<open>rest\<close> is meant to be, the message without the prefix and the command: from the
  text after the prefix, each segment of the path and the white space after it are
  dropped. The characters that stand for themselves in a regular expression are the
  ones that are neither a metacharacter nor \<^verbatim>\<open>^\<close>, \<^verbatim>\<open>$\<close> or \<^verbatim>\<open>.\<close>.
\<close>

fun strip_path :: "string list \<Rightarrow> string \<Rightarrow> string" where
  "strip_path [] s = s"
| "strip_path (t # ts) s = strip_path ts (dropWhile is_space (drop (length t) s))"

definition re_literal :: "char \<Rightarrow> bool" where
  "re_literal c \<longleftrightarrow> \<not> re_meta c \<and> c \<noteq> CHR ''^'' \<and> c \<noteq> CHR ''$'' \<and> c \<noteq> CHR ''.''"

section \<open>The dispatcher\<close>

text \<open>
  \<^verbatim>\<open>async onError(error, request) {
    console.error(error)
    if (request && request.message) { await request.message.reply(this.errorMessage) } }\<close>
  A request always has its message. Replying is the transport's business and is taken
  to succeed.
\<close>

definition onError :: "'v bot \<Rightarrow> error \<Rightarrow> request \<Rightarrow> event list" where
  "onError b err rq = [ConsoleError err, Replied (Text (errorMessage b))]"

text \<open>\<^verbatim>\<open>async onInvalidCommand(message) { await message.reply(this.invalidCommandError) }\<close>\<close>

definition onInvalidCommand :: "'v bot \<Rightarrow> message \<Rightarrow> event list" where
  "onInvalidCommand b msg = [Replied (Text (invalidCommandError b))]"

text \<open>
  \<^verbatim>\<open>async onHelp(request) {
    if (request.command == undefined) {
      await request.message.reply({ embed: { title: 'Help', fields: [
        { name: 'Commands',
          value: [...Object.keys(this.commands), 'help'].sort()
                   .map((cmd) => `- \`${cmd}\``).join('\n') },
        { name: 'Help with commands',
          value: `You can get help with commands and sub-commands by running \`${this.prefix}command --help\`` } ] } })
    } else {
      let helpMessage
      if (typeof request.command.help === 'function') {
        try { helpMessage = await request.command.help.call(this) }
        catch (error) { await this.onError(error, request); return }
      } else { helpMessage = request.command.help }
      await request.message.reply(helpMessage)
    } }\<close>
  \<^verbatim>\<open>sort()\<close> without a comparison function orders strings by their code units, which
  is the lexicographic order of \<^typ>\<open>string\<close>.
\<close>

definition help_listing :: "'v bot \<Rightarrow> string list" where
  "help_listing b = sort (map fst (commands b) @ [''help''])"

definition help_embed :: "'v bot \<Rightarrow> payload" where
  "help_embed b =
     Embed ''Help''
       [(''Commands'',
         join [CHR 0x0A] (map (\<lambda>cmd. ''- '' @ [CHR 0x60] @ cmd @ [CHR 0x60]) (help_listing b))),
        (''Help with commands'',
         ''You can get help with commands and sub-commands by running '' @ [CHR 0x60]
           @ prefix b @ ''command --help'' @ [CHR 0x60])]"

definition onHelp :: "'v env \<Rightarrow> 'v bot \<Rightarrow> request \<Rightarrow> event list" where
  "onHelp e b rq =
     (case req_command rq of
        None \<Rightarrow> [Replied (help_embed b)]
      | Some c \<Rightarrow>
          (case help_of c of
             Some (Dynamic h) \<Rightarrow>
               (case call_help e h b of
                  Inl err \<Rightarrow> HelpCalled h # onError b err rq
                | Inr m \<Rightarrow> [HelpCalled h, Replied (Text m)])
           | Some (Static m) \<Rightarrow> [Replied (Text m)]
           | None \<Rightarrow> [Replied Undefined]))"

text \<open>
  \<^verbatim>\<open>async receive(message) {
    if (message.author.bot) return false
    const components = this.parse(message.content)
    if (components.length === 0) return false
    const { through, command } = this.weakDive(components)
    const arguments_ = components.slice(through.length, components.length)
    const rest = message.content
      .replace(new RegExp(`^${this.prefix}${through.join('\\s+')}\\s*`), '')
      .trim()
    const request = { message, components, commands: through, args: arguments_, rest, command }
    if (arguments_.length === 1 &&
        ((command == undefined && arguments_[0] === 'help') ||
         (command != undefined && arguments_[0] === '--help' && command.help != undefined))) {
      await this.onHelp(request)
    } else if (command == undefined) {
      await this.onInvalidCommand(message)
    } else {
      try { await command.action.call(this, request) }
      catch (error) { await this.onError(error, request) }
    } }\<close>
  The result is how the call ends and what the router did.
\<close>

definition receive :: "'v env \<Rightarrow> 'v bot \<Rightarrow> message \<Rightarrow> completion \<times> event list" where
  "receive e b msg =
     (if author_bot msg then (RetFalse, [])
      else
        let components = parse (prefix b) (content msg) in
        if length components = 0 then (RetFalse, [])
        else
          let cmd = weakDive b components;
              arguments = drop (length (through cmd)) components
          in case regexp e (rest_pattern (prefix b) (through cmd)) of
               Inl err \<Rightarrow> (Rejected err, [])
             | Inr remove \<Rightarrow>
                 let rq = \<lparr>req_message = msg, req_components = components,
                           req_commands = through cmd, req_command = command cmd,
                           req_rest = trim (remove (content msg)), req_args = arguments\<rparr>
                 in if length arguments = 1 \<and>
                       ((command cmd = None \<and> arguments ! 0 = ''help'') \<or>
                        (command cmd \<noteq> None \<and> arguments ! 0 = ''--help'' \<and>
                         help_of (the (command cmd)) \<noteq> None))
                    then (RetVoid, onHelp e b rq)
                    else
                      (case command cmd of
                         None \<Rightarrow> (RetVoid, onInvalidCommand b msg)
                       | Some c \<Rightarrow>
                           (case call_action e (action c) b rq of
                              Returns \<Rightarrow> (RetVoid, [Invoked (action c) rq])
                            | Throws err \<Rightarrow>
                                (RetVoid, Invoked (action c) rq # onError b err rq)
                            | Rejects err \<Rightarrow>
                                (RetVoid, Invoked (action c) rq # onError b err rq))))"

section \<open>Example bots\<close>

text \<open>
  The bots of the repository's tests: \<^verbatim>\<open>register(commandPath, action)\<close> is the plugin
  without help and sub-commands, a fresh bot is \<^verbatim>\<open>new Bot({ prefix })\<close>, and the bot
  of the diving tests registers \<^verbatim>\<open>a\<close>, \<^verbatim>\<open>a aa\<close>, \<^verbatim>\<open>a aa aaa\<close> and \<^verbatim>\<open>b\<close>.
\<close>

definition path_plugin :: "string \<Rightarrow> nat \<Rightarrow> plugin" where
  "path_plugin path a =
     \<lparr>plugin_command = path, plugin_action = a, plugin_sub = None, plugin_help = None\<rparr>"

definition fresh_bot :: "string \<Rightarrow> string bot" where
  "fresh_bot p = new_Bot \<lparr>opt_prefix = p, opt_invalidCommandError = None, opt_errorMessage = None\<rparr>"

definition registers :: "plugin list \<Rightarrow> 'v bot \<Rightarrow> 'v bot" where
  "registers ps b = fold (\<lambda>p b. snd (register p b)) ps b"

definition diving_bot :: "string bot" where
  "diving_bot =
     registers [path_plugin ''a'' 1, path_plugin ''a aa'' 2, path_plugin ''a aa aaa'' 3,
                path_plugin ''b'' 4] (fresh_bot '';;'')"

text \<open>
  The bot of the tests on receiving messages: \<^verbatim>\<open>echo\<close> with a static help message,
  \<^verbatim>\<open>about\<close> with a help function, and \<^verbatim>\<open>error\<close>, whose action throws. In the
  environment of the examples action 3 throws \<^verbatim>\<open>Error('Uh-oh')\<close>, action 6 returns a
  promise that rejects, help function 0 reports the prefix, help function 1 throws,
  and state listener 0 throws.
\<close>

definition example_env :: "string env" where
  "example_env =
     \<lparr>call_action = (\<lambda>a this rq. if a = 3 then Throws (Error ''Uh-oh'')
                                  else if a = 6 then Rejects (Error ''Later'') else Returns),
      call_help = (\<lambda>h this. if h = 0
                     then Inr (''More about this bot that has a prefix of '' @ prefix this)
                     else Inl (Error ''No help'')),
      call_listener = (\<lambda>l this previous nxt. if l = 0 then Throws (Error ''Deaf'') else Returns),
      host_regexp = (\<lambda>source. Inl (Error ''Invalid regular expression''))\<rparr>"

definition receiving_bot :: "string bot" where
  "receiving_bot =
     registers
       [\<lparr>plugin_command = ''echo'', plugin_action = 1, plugin_sub = None,
         plugin_help = Some (Static ''Echoes back what you say'')\<rparr>,
        \<lparr>plugin_command = ''about'', plugin_action = 2, plugin_sub = None,
         plugin_help = Some (Dynamic 0)\<rparr>,
        path_plugin ''error'' 3,
        \<lparr>plugin_command = ''broken'', plugin_action = 4, plugin_sub = None,
         plugin_help = Some (Dynamic 1)\<rparr>,
        path_plugin ''later'' 6]
       (fresh_bot '';;'')"

text \<open>A bot whose prefix is the dollar sign, a bot with a command named \<^verbatim>\<open>help\<close>, and a
  bot with the state listeners 0 and 1, registered in that order.\<close>

definition dollar_bot :: "string bot" where
  "dollar_bot = registers [path_plugin ''echo'' 1] (fresh_bot ''$'')"


definition listening_bot :: "string bot" where
  "listening_bot = onStateUpdate 1 (onStateUpdate 0 (fresh_bot '';;''))"

section \<open>Properties of the parser\<close>

lemma words_Nil [simp]: "words [] = []"
  by (simp add: words.simps)

lemma words_space [simp]: "is_space c \<Longrightarrow> words (c # s) = words s"
  by (simp add: words.simps[of "c # s"] words.simps[of s])

lemma words_dropWhile [simp]: "words (dropWhile is_space s) = words s"
  by (induction s) auto

lemma words_nonspace:
  "\<not> is_space t \<Longrightarrow>
     words (t # ts) = takeWhile (\<lambda>c. \<not> is_space c) (t # ts)
                      # words (dropWhile (\<lambda>c. \<not> is_space c) (t # ts))"
  by (simp add: words.simps[of "t # ts"])

lemma words_word:
  assumes "u \<noteq> []" "\<forall>c\<in>set u. \<not> is_space c" "v = [] \<or> is_space (hd v)"
  shows "words (u @ v) = u # words v"
proof -
  obtain a u' where u: "u = a # u'" using assms(1) by (cases u) auto
  have na: "\<not> is_space a" using assms(2) u by simp
  have tw: "takeWhile (\<lambda>c. \<not> is_space c) (u @ v) = u"
    using assms(2,3) by (cases v) (auto simp: takeWhile_append2 takeWhile_eq_all_conv)
  have dw: "dropWhile (\<lambda>c. \<not> is_space c) (u @ v) = v"
    using assms(2,3) by (cases v) (auto simp: dropWhile_append2)
  have "words (a # (u' @ v)) = takeWhile (\<lambda>c. \<not> is_space c) (a # (u' @ v))
                      # words (dropWhile (\<lambda>c. \<not> is_space c) (a # (u' @ v)))"
    using na by (rule words_nonspace)
  then have "words (u @ v) = takeWhile (\<lambda>c. \<not> is_space c) (u @ v)
                      # words (dropWhile (\<lambda>c. \<not> is_space c) (u @ v))"
    by (simp only: u append_Cons)
  then show ?thesis by (simp only: tw dw)
qed

lemma collapse_word:
  "\<forall>c\<in>set u. \<not> is_space c \<Longrightarrow> collapse (u @ v) = u @ collapse v"
  by (induction u) auto

lemma space_is_space [simp]: "is_space CHR '' ''"
  by (simp add: is_space_def)

lemma split_sp_word:
  "\<forall>c\<in>set u. \<not> is_space c \<Longrightarrow> split_sp (u @ CHR '' '' # r) = u # split_sp r"
  by (induction u) auto

lemma split_sp_single:
  "\<forall>c\<in>set u. \<not> is_space c \<Longrightarrow> split_sp u = [u]"
  by (induction u) auto


lemma words_all_space: "\<forall>c\<in>set s. is_space c \<Longrightarrow> words s = []"
  by (induction s) auto

lemma words_Cons:
  "\<not> is_space c \<Longrightarrow>
     words (c # s) = (if s = [] \<or> is_space (hd s) then [c] # words s
                      else (c # hd (words s)) # tl (words s))"
  by (cases s) (auto simp: words_nonspace)

lemma words_trailing: "\<forall>c\<in>set w. is_space c \<Longrightarrow> words (x @ w) = words x"
proof (induction x)
  case Nil
  then show ?case by (simp add: words_all_space)
next
  case (Cons c x)
  show ?case
  proof (cases "is_space c")
    case True
    then show ?thesis using Cons by simp
  next
    case False
    have "(x @ w = [] \<or> is_space (hd (x @ w))) = (x = [] \<or> is_space (hd x))"
      using Cons.prems by (cases x; cases w) auto
    then show ?thesis
      using False Cons by (simp add: words_Cons)
  qed
qed

lemma words_eq_Nil: "words s = [] \<longleftrightarrow> (\<forall>c\<in>set s. is_space c)"
proof
  show "words s = [] \<Longrightarrow> \<forall>c\<in>set s. is_space c"
  proof (induction s)
    case Nil
    then show ?case by simp
  next
    case (Cons a s)
    have a: "is_space a"
    proof (rule ccontr)
      assume "\<not> is_space a"
      then have "words (a # s) \<noteq> []" by (simp add: words_Cons)
      then show False using Cons.prems by simp
    qed
    then show ?case using Cons by simp
  qed
qed (rule words_all_space)

lemma last_dropWhile: "dropWhile P xs \<noteq> [] \<Longrightarrow> last (dropWhile P xs) = last xs"
  by (metis last_appendR takeWhile_dropWhile_id)

lemma tokens_trimmed:
  "t \<noteq> [] \<Longrightarrow> \<not> is_space (hd t) \<Longrightarrow> \<not> is_space (last t) \<Longrightarrow>
     split_sp (collapse t) = words t"
proof (induction "length t" arbitrary: t rule: less_induct)
  case less
  define u where "u = takeWhile (\<lambda>c. \<not> is_space c) t"
  define v where "v = dropWhile (\<lambda>c. \<not> is_space c) t"
  have t: "t = u @ v" by (simp add: u_def v_def)
  have u_ns: "\<forall>c\<in>set u. \<not> is_space c"
    unfolding u_def by (auto dest: set_takeWhileD)
  have u_ne: "u \<noteq> []"
    using less.prems(1,2) unfolding u_def by (cases t) auto
  show ?case
  proof (cases v)
    case Nil
    then show ?thesis
      using t u_ns u_ne collapse_word[of u "[]"] words_word[of u "[]"]
      by (simp add: split_sp_single)
  next
    case (Cons c v')
    have c: "is_space c"
      using hd_dropWhile[of "\<lambda>c. \<not> is_space c" t] Cons unfolding v_def by force
    define t' where "t' = dropWhile is_space v'"
    have lastv: "last v = last t" using t Cons by simp
    have "\<not> (\<forall>x\<in>set v. is_space x)"
      using lastv less.prems(3) Cons last_in_set[of v] by auto
    then have dv: "dropWhile is_space v \<noteq> []" by (simp add: dropWhile_eq_Nil_conv)
    have dv': "dropWhile is_space v = t'" using Cons c by (simp add: t'_def)
    have t'_ne: "t' \<noteq> []" using dv dv' by simp
    have hd': "\<not> is_space (hd t')"
      using hd_dropWhile[of is_space v'] t'_ne unfolding t'_def by simp
    have last': "\<not> is_space (last t')"
      using last_dropWhile[of is_space v] dv dv' lastv less.prems(3) by simp
    have len: "length t' < length t"
      using length_dropWhile_le[of is_space v'] t Cons unfolding t'_def by simp
    have IH: "split_sp (collapse t') = words t'"
      using less.hyps[OF len t'_ne hd' last'] .
    have "collapse t = u @ CHR '' '' # collapse t'"
      using t Cons c u_ns by (simp add: collapse_word t'_def)
    then have lhs: "split_sp (collapse t) = u # words t'"
      using u_ns IH by (simp add: split_sp_word)
    have "words t = u # words v"
      using words_word[of u v] u_ne u_ns Cons c t by simp
    also have "words v = words t'"
      using words_dropWhile[of v] dv' by simp
    finally show ?thesis using lhs by simp
  qed
qed

lemma rev_split: "d = rev (dropWhile P (rev d)) @ rev (takeWhile P (rev d))"
  by (metis rev_append rev_rev_ident takeWhile_dropWhile_id)

lemma trim_split:
  "dropWhile is_space s = trim s @ rev (takeWhile is_space (rev (dropWhile is_space s)))"
  unfolding trim_def by (rule rev_split)

lemma trim_eq_Nil: "trim s = [] \<longleftrightarrow> (\<forall>c\<in>set s. is_space c)"
proof
  assume "trim s = []"
  then have "\<forall>x\<in>set (dropWhile is_space s). is_space x"
    by (simp add: trim_def dropWhile_eq_Nil_conv)
  then have "dropWhile is_space s = []"
    using hd_dropWhile[of is_space s] hd_in_set[of "dropWhile is_space s"] by blast
  then show "\<forall>c\<in>set s. is_space c" by (simp add: dropWhile_eq_Nil_conv)
next
  assume "\<forall>c\<in>set s. is_space c"
  then have "dropWhile is_space s = []" by (simp add: dropWhile_eq_Nil_conv)
  then show "trim s = []" unfolding trim_def by (simp only: rev.simps dropWhile.simps)
qed

lemma trim_decomp:
  "\<exists>w1 w2. s = w1 @ trim s @ w2 \<and> (\<forall>c\<in>set w1. is_space c) \<and> (\<forall>c\<in>set w2. is_space c)"
proof -
  define d where "d = dropWhile is_space s"
  have 1: "s = takeWhile is_space s @ d" by (simp add: d_def)
  have 2: "d = trim s @ rev (takeWhile is_space (rev d))"
    unfolding d_def by (rule trim_split)
  have "s = takeWhile is_space s @ trim s @ rev (takeWhile is_space (rev d))"
    using 1 2 by simp
  moreover have "\<forall>c\<in>set (takeWhile is_space s). is_space c"
    by (auto dest: set_takeWhileD)
  moreover have "\<forall>c\<in>set (rev (takeWhile is_space (rev d))). is_space c"
    by (auto dest: set_takeWhileD)
  ultimately show ?thesis by blast
qed

lemma words_leading: "\<forall>c\<in>set w. is_space c \<Longrightarrow> words (w @ x) = words x"
  by (induction w) auto

lemma words_trim [simp]: "words (trim s) = words s"
proof -
  obtain w1 w2 where "s = w1 @ trim s @ w2" "\<forall>c\<in>set w1. is_space c" "\<forall>c\<in>set w2. is_space c"
    using trim_decomp by blast
  then show ?thesis
    by (metis words_leading words_trailing)
qed

lemma trim_hd: "trim s \<noteq> [] \<Longrightarrow> \<not> is_space (hd (trim s))"
proof -
  assume ne: "trim s \<noteq> []"
  define d where "d = dropWhile is_space s"
  have 2: "d = trim s @ rev (takeWhile is_space (rev d))"
    unfolding d_def by (rule trim_split)
  then have "hd d = hd (trim s)" using ne by (metis hd_append2)
  moreover have "d \<noteq> []" using 2 ne by auto
  then have "\<not> is_space (hd d)" unfolding d_def using hd_dropWhile by blast
  ultimately show ?thesis by simp
qed

lemma trim_last: "trim s \<noteq> [] \<Longrightarrow> \<not> is_space (last (trim s))"
proof -
  assume ne: "trim s \<noteq> []"
  then have "dropWhile is_space (rev (dropWhile is_space s)) \<noteq> []"
    by (simp add: trim_def)
  then have "\<not> is_space (hd (dropWhile is_space (rev (dropWhile is_space s))))"
    using hd_dropWhile by blast
  then show ?thesis
    using ne by (simp add: trim_def last_rev)
qed

lemma tokens_words:
  "split_sp (collapse (trim s)) = (if words s = [] then [[]] else words s)"
proof (cases "trim s = []")
  case True
  then show ?thesis using trim_eq_Nil[of s] words_eq_Nil[of s] by simp
next
  case False
  then have "split_sp (collapse (trim s)) = words (trim s)"
    by (intro tokens_trimmed trim_hd trim_last)
  moreover have "words s \<noteq> []"
    using False trim_eq_Nil[of s] words_eq_Nil[of s] by simp
  ultimately show ?thesis by simp
qed


lemma parse_words:
  "parse p m =
     (if startsWith m p then
        (let t = (if words m = [] then [[]] else words m) in
           if hd t \<noteq> p then drop (length p) (hd t) # tl t else [])
      else [])"
proof -
  have "t \<noteq> [] \<Longrightarrow> t[0 := x] = x # tl t \<and> t ! 0 = hd t" for t :: "string list" and x
    by (cases t) auto
  then show ?thesis
    unfolding parse_def tokens_words by (auto simp: Let_def)
qed

lemma startsWith_append [simp]: "startsWith (p @ r) p"
  by (simp add: startsWith_def)

lemma startsWithD: "startsWith m p \<Longrightarrow> \<exists>r. m = p @ r"
  unfolding startsWith_def by (metis append_take_drop_id)

lemma parse_plain:
  assumes "p \<noteq> []" "\<forall>c\<in>set p. \<not> is_space c"
  shows "parse p m =
     (if startsWith m p \<and> hd (words m) \<noteq> p
      then drop (length p) (hd (words m)) # tl (words m) else [])"
proof (cases "startsWith m p")
  case True
  then obtain r where m: "m = p @ r" using startsWithD by blast
  have "\<not> (\<forall>c\<in>set m. is_space c)" using assms m by (cases p) auto
  then have "words m \<noteq> []" by (simp add: words_eq_Nil)
  then show ?thesis using True by (simp add: parse_words Let_def)
next
  case False
  then show ?thesis by (simp add: parse_def)
qed

lemma words_prefix_space:
  assumes "p \<noteq> []" "\<forall>c\<in>set p. \<not> is_space c" "r = [] \<or> is_space (hd r)"
  shows "hd (words (p @ r)) = p"
  using words_word[OF assms] by simp









section \<open>Properties of the command tree\<close>

lemma strictDive_loop_failed_Some:
  "strictDive_loop root (Some x) xs = None \<Longrightarrow> strictDive_loop root (Some x) (xs @ ys) = None"
  by (induction xs arbitrary: x) (auto split: option.splits)

lemma strictDive_loop_failed:
  "strictDive_loop root cur xs = None \<Longrightarrow> xs \<noteq> [] \<Longrightarrow> strictDive_loop root cur (xs @ ys) = None"
  by (cases xs) (auto split: option.splits simp: strictDive_loop_failed_Some)

lemma strictDive_loop_take_failed:
  assumes "strictDive_loop root cur (take k cs) = None" "0 < k" "k \<le> j"
  shows "strictDive_loop root cur (take j cs) = None"
proof (cases "take k cs = []")
  case True
  then have "cs = []" using assms(2) by (cases cs) auto
  then show ?thesis using assms(1) by simp
next
  case False
  have "take j cs = take k cs @ take (j - k) (drop k cs)"
    using assms(3) by (metis le_add_diff_inverse take_add)
  then show ?thesis
    using strictDive_loop_failed[OF assms(1) False] by simp
qed

lemma weakDive_loop_spec:
  "\<exists>n\<le>length cs.
     weakDive_loop root cur thr cs =
       \<lparr>through = thr @ take n cs, command = strictDive_loop root cur (take n cs)\<rparr> \<and>
     (0 < n \<longrightarrow> strictDive_loop root cur (take n cs) \<noteq> None) \<and>
     (n < length cs \<longrightarrow> strictDive_loop root cur (take (Suc n) cs) = None)"
proof (induction cs arbitrary: cur thr)
  case Nil
  then show ?case by simp
next
  case (Cons c cs)
  show ?case
  proof (cases "dive_step root cur c")
    case None
    then show ?thesis by (intro exI[of _ 0]) simp
  next
    case (Some x)
    obtain n where n: "n \<le> length cs"
      "weakDive_loop root (Some x) (thr @ [c]) cs =
         \<lparr>through = (thr @ [c]) @ take n cs,
          command = strictDive_loop root (Some x) (take n cs)\<rparr>"
      "0 < n \<longrightarrow> strictDive_loop root (Some x) (take n cs) \<noteq> None"
      "n < length cs \<longrightarrow> strictDive_loop root (Some x) (take (Suc n) cs) = None"
      using Cons.IH[of "Some x" "thr @ [c]"] by blast
    have "strictDive_loop root (Some x) (take n cs) \<noteq> None"
      using n(3) by (cases n) auto
    then show ?thesis
      using Some n by (intro exI[of _ "Suc n"]) simp
  qed
qed

lemma weakDive_spec:
  fixes b :: "'v bot" and cs :: "string list"
  defines "n \<equiv> length (through (weakDive b cs))"
  shows "n \<le> length cs"
    and "through (weakDive b cs) = take n cs"
    and "command (weakDive b cs) = strictDive_loop (commands b) None (take n cs)"
    and "0 < n \<Longrightarrow> strictDive_loop (commands b) None (take n cs) \<noteq> None"
    and "n < k \<Longrightarrow> k \<le> length cs \<Longrightarrow> strictDive_loop (commands b) None (take k cs) = None"
proof -
  obtain m where m: "m \<le> length cs"
    "weakDive_loop (commands b) None [] cs =
       \<lparr>through = [] @ take m cs, command = strictDive_loop (commands b) None (take m cs)\<rparr>"
    "0 < m \<longrightarrow> strictDive_loop (commands b) None (take m cs) \<noteq> None"
    "m < length cs \<longrightarrow> strictDive_loop (commands b) None (take (Suc m) cs) = None"
    using weakDive_loop_spec[of cs "commands b" None "[]"] by blast
  have nm: "n = m" using m(1,2) by (simp add: n_def weakDive_def)
  show "n \<le> length cs" using nm m(1) by simp
  show "through (weakDive b cs) = take n cs" using nm m(2) by (simp add: weakDive_def)
  show "command (weakDive b cs) = strictDive_loop (commands b) None (take n cs)"
    using nm m(2) by (simp add: weakDive_def)
  show "0 < n \<Longrightarrow> strictDive_loop (commands b) None (take n cs) \<noteq> None"
    using nm m(3) by simp
  show "strictDive_loop (commands b) None (take k cs) = None" if "n < k" "k \<le> length cs"
  proof -
    have "strictDive_loop (commands b) None (take (Suc n) cs) = None"
      using nm m(4) that by simp
    moreover have "0 < Suc n" "Suc n \<le> k" using that by simp_all
    ultimately show ?thesis by (rule strictDive_loop_take_failed)
  qed
qed

lemma split_sp_nonempty [simp]: "split_sp s \<noteq> []"
  by (induction s) auto

lemma weakDive_of_resolved:
  assumes "strictDive b cs = Inr c"
  shows "weakDive b cs = \<lparr>through = cs, command = Some c\<rparr>"
proof -
  define n where "n = length (through (weakDive b cs))"
  have res: "strictDive_loop (commands b) None cs = Some c"
    using assms by (auto simp: strictDive_def split: option.splits)
  have "\<not> n < length cs"
  proof
    assume "n < length cs"
    then have "strictDive_loop (commands b) None (take (length cs) cs) = None"
      unfolding n_def by (rule weakDive_spec(5)) simp
    then show False using res by simp
  qed
  moreover have "n \<le> length cs" unfolding n_def by (rule weakDive_spec(1))
  ultimately have n: "n = length cs" by simp
  have "through (weakDive b cs) = cs"
    using weakDive_spec(2)[of b cs] n by (simp add: n_def)
  moreover have "command (weakDive b cs) = Some c"
    using weakDive_spec(3)[of b cs] n res by (simp add: n_def)
  ultimately show ?thesis by (cases "weakDive b cs") simp
qed




lemma diving_bot_commands:
  "commands diving_bot =
     [(''a'', Command 1 [(''aa'', Command 2 [(''aaa'', Command 3 [] None)] None)] None),
      (''b'', Command 4 [] None)]"
  by (simp add: diving_bot_def registers_def register_def Let_def weakDive_def dive_step_def
      path_plugin_def fresh_bot_def new_Bot_def)



text \<open>
  Claim C1, as the code has it: when the tree has a node at the exact path, \<^verbatim>\<open>register\<close>
  with that path (with or without help and sub-commands) throws
  \<^verbatim>\<open>Unable to follow commands\<close> and leaves the bot as it is.
\<close>

theorem register_existing_path_rejected:
  assumes "strictDive b (split_sp (plugin_command opts)) = Inr c"
  shows "register opts b = (Some (Error ''Unable to follow commands''), b)"
proof -
  have walked: "weakDive b (split_sp (plugin_command opts))
                  = \<lparr>through = split_sp (plugin_command opts), command = Some c\<rparr>"
    using assms by (rule weakDive_of_resolved)
  have "length (split_sp (plugin_command opts)) \<noteq> length (split_sp (plugin_command opts)) - 1"
    by (cases "split_sp (plugin_command opts)") auto
  then show ?thesis
    using walked by (simp add: register_def Let_def)
qed

text \<open>The theorem at the path \<^verbatim>\<open>a aa\<close> of the bot of the diving tests.\<close>

theorem register_existing_path_rejected_witness:
  "strictDive diving_bot (split_sp (plugin_command (path_plugin ''a aa'' 7)))
     = Inr (Command 2 [(''aaa'', Command 3 [] None)] None) \<and>
   register (path_plugin ''a aa'' 7) diving_bot
     = (Some (Error ''Unable to follow commands''), diving_bot)"
proof -
  have "strictDive diving_bot (split_sp (plugin_command (path_plugin ''a aa'' 7)))
     = Inr (Command 2 [(''aaa'', Command 3 [] None)] None)"
    by (simp add: path_plugin_def strictDive_def dive_step_def diving_bot_commands)
  then show ?thesis
    using register_existing_path_rejected[of diving_bot "path_plugin ''a aa'' 7"] by simp
qed

text \<open>
  Claim C1 as stated fails: registering \<^verbatim>\<open>b\<close> again throws, and the node at \<^verbatim>\<open>b\<close>
  keeps its action.
\<close>

theorem register_overwrite_counterexample:
  "fst (register (path_plugin ''b'' 7) diving_bot) = Some (Error ''Unable to follow commands'') \<and>
   strictDive (snd (register (path_plugin ''b'' 7) diving_bot)) [''b''] = Inr (Command 4 [] None)"
  by (simp add: register_def Let_def weakDive_def strictDive_def dive_step_def path_plugin_def
      diving_bot_commands)



section \<open>Properties of the state container\<close>

lemma notify_calls:
  "snd (notify e this previous nxt ls) =
     map (\<lambda>l. Notified l (state this) previous nxt)
       (takeWhile (\<lambda>l. \<not> throws (call_listener e l this previous nxt)) ls
        @ take 1 (dropWhile (\<lambda>l. \<not> throws (call_listener e l this previous nxt)) ls))"
  by (induction ls) (auto simp: throws_def split: outcome.splits)

lemma notify_no_throw:
  "\<forall>l\<in>set ls. \<not> throws (call_listener e l this previous nxt) \<Longrightarrow>
     notify e this previous nxt ls = (None, map (\<lambda>l. Notified l (state this) previous nxt) ls)"
  by (induction ls) (auto simp: throws_def split: outcome.splits)

lemma notify_first_throw:
  "\<forall>x\<in>set ls1. \<not> throws (call_listener e x this previous nxt) \<Longrightarrow>
   call_listener e l this previous nxt = Throws err \<Longrightarrow>
     notify e this previous nxt (ls1 @ l # ls2) =
       (Some err, map (\<lambda>l. Notified l (state this) previous nxt) (ls1 @ [l]))"
  by (induction ls1) (auto simp: throws_def split: outcome.splits)

lemma listening_bot_fields:
  "stateListeners listening_bot = [0, 1]" "state listening_bot = None"
  by (simp_all add: listening_bot_def onStateUpdate_def fresh_bot_def new_Bot_def)


lemma setState_unfold:
  "setState e partial b =
     (fst (notify e (b\<lparr>state := Some ((case state b of None \<Rightarrow> Map.empty | Some s \<Rightarrow> s) ++ partial)\<rparr>)
             (state b) ((case state b of None \<Rightarrow> Map.empty | Some s \<Rightarrow> s) ++ partial)
             (stateListeners b)),
      b\<lparr>state := Some ((case state b of None \<Rightarrow> Map.empty | Some s \<Rightarrow> s) ++ partial)\<rparr>,
      snd (notify e (b\<lparr>state := Some ((case state b of None \<Rightarrow> Map.empty | Some s \<Rightarrow> s) ++ partial)\<rparr>)
             (state b) ((case state b of None \<Rightarrow> Map.empty | Some s \<Rightarrow> s) ++ partial)
             (stateListeners b)))"
  by (simp add: setState_def dispatchStateUpdate_def Let_def)

text \<open>
  Claim C8, as the code has it. \<^verbatim>\<open>setState\<close> replaces the state by the shallow union
  of the previous state and the partial state (the keys of the partial state
  overwrite, the others persist) and then calls the listeners in registration order
  with the previous state and the merged state, whether or not a field changed, up to
  and including the first listener that throws synchronously. When no listener throws
  synchronously, every registered listener is called, exactly once and in registration
  order. A listener that is already registered is not added again.
\<close>

theorem setState_merges_and_notifies:
  fixes b :: "'v bot"
  shows "(let previous = state b;
        nxt = (case previous of None \<Rightarrow> Map.empty | Some s \<Rightarrow> s) ++ partial;
        b' = b\<lparr>state := Some nxt\<rparr>;
        quiet = (\<lambda>l. \<not> throws (call_listener e l b' previous nxt));
        calls = snd (snd (setState e partial b))
    in fst (snd (setState e partial b)) = b' \<and>
       (\<forall>k. nxt k = (case partial k of
                        Some v \<Rightarrow> Some v
                      | None \<Rightarrow> (case previous of None \<Rightarrow> None | Some s \<Rightarrow> s k))) \<and>
       calls = map (\<lambda>l. Notified l (Some nxt) previous nxt)
                 (takeWhile quiet (stateListeners b) @ take 1 (dropWhile quiet (stateListeners b))) \<and>
       ((\<forall>l\<in>set (stateListeners b). quiet l) \<longrightarrow>
          fst (setState e partial b) = None \<and>
          calls = map (\<lambda>l. Notified l (Some nxt) previous nxt) (stateListeners b) \<and>
          map notified_listener calls = stateListeners b)) \<and>
   stateListeners (new_Bot options :: 'v bot) = [] \<and>
   (distinct (stateListeners b) \<longrightarrow> distinct (stateListeners (onStateUpdate l b))) \<and>
   set (stateListeners (onStateUpdate l b)) = insert l (set (stateListeners b)) \<and>
   (l \<in> set (stateListeners b) \<longrightarrow> onStateUpdate l b = b) \<and>
   onStateUpdate l (onStateUpdate l b) = onStateUpdate l b"
proof -
  define previous where "previous = state b"
  define nxt where "nxt = (case previous of None \<Rightarrow> Map.empty | Some s \<Rightarrow> s) ++ partial"
  define b' where "b' = b\<lparr>state := Some nxt\<rparr>"
  define quiet where "quiet = (\<lambda>l. \<not> throws (call_listener e l b' previous nxt))"
  define calls where "calls = snd (snd (setState e partial b))"
  have st: "setState e partial b =
      (fst (notify e b' previous nxt (stateListeners b)), b',
       snd (notify e b' previous nxt (stateListeners b)))"
    unfolding b'_def nxt_def previous_def by (rule setState_unfold)
  have 1: "fst (snd (setState e partial b)) = b'" by (simp add: st)
  have 2: "\<forall>k. nxt k = (case partial k of
                        Some v \<Rightarrow> Some v
                      | None \<Rightarrow> (case previous of None \<Rightarrow> None | Some s \<Rightarrow> s k))"
    by (auto simp: nxt_def map_add_def split: option.splits)
  have sb: "state b' = Some nxt" by (simp add: b'_def)
  have 3: "calls = map (\<lambda>l. Notified l (Some nxt) previous nxt)
                 (takeWhile quiet (stateListeners b) @ take 1 (dropWhile quiet (stateListeners b)))"
    unfolding calls_def quiet_def st using notify_calls[of e b' previous nxt "stateListeners b"] sb
    by simp
  have 4: "fst (setState e partial b) = None \<and>
          calls = map (\<lambda>l. Notified l (Some nxt) previous nxt) (stateListeners b) \<and>
          map notified_listener calls = stateListeners b"
    if "\<forall>l\<in>set (stateListeners b). quiet l"
  proof -
    have "notify e b' previous nxt (stateListeners b) =
        (None, map (\<lambda>l. Notified l (state b') previous nxt) (stateListeners b))"
      using that unfolding quiet_def by (rule notify_no_throw)
    then show ?thesis
      unfolding calls_def st using sb by (simp add: comp_def)
  qed
  have 5: "stateListeners (new_Bot options :: 'v bot) = []"
    by (simp add: new_Bot_def)
  have 6: "distinct (stateListeners b) \<longrightarrow> distinct (stateListeners (onStateUpdate l b))"
    "set (stateListeners (onStateUpdate l b)) = insert l (set (stateListeners b))"
    "l \<in> set (stateListeners b) \<longrightarrow> onStateUpdate l b = b"
    "onStateUpdate l (onStateUpdate l b) = onStateUpdate l b"
    by (auto simp: onStateUpdate_def)
  show ?thesis
    unfolding Let_def previous_def[symmetric] nxt_def[symmetric] b'_def[symmetric]
      quiet_def[symmetric] calls_def[symmetric]
    using 1 2 3 4 5 6 by blast
qed

text \<open>The theorem on a bot with the listeners 2 and 1, the first registered twice.\<close>

theorem setState_merges_and_notifies_witness:
  "setState example_env [''value2'' \<mapsto> ''b'']
     ((onStateUpdate 2 (onStateUpdate 1 (onStateUpdate 2 (fresh_bot '';;''))))
        \<lparr>state := Some [''value1'' \<mapsto> ''a'']\<rparr>)
   = (None,
      (onStateUpdate 1 (onStateUpdate 2 (fresh_bot '';;'')))
        \<lparr>state := Some [''value1'' \<mapsto> ''a'', ''value2'' \<mapsto> ''b'']\<rparr>,
      [Notified 2 (Some [''value1'' \<mapsto> ''a'', ''value2'' \<mapsto> ''b'']) (Some [''value1'' \<mapsto> ''a''])
         [''value1'' \<mapsto> ''a'', ''value2'' \<mapsto> ''b''],
       Notified 1 (Some [''value1'' \<mapsto> ''a'', ''value2'' \<mapsto> ''b'']) (Some [''value1'' \<mapsto> ''a''])
         [''value1'' \<mapsto> ''a'', ''value2'' \<mapsto> ''b'']])"
proof -
  define b :: "string bot" where
    "b = (onStateUpdate 2 (onStateUpdate 1 (onStateUpdate 2 (fresh_bot '';;''))))
           \<lparr>state := Some [''value1'' \<mapsto> ''a'']\<rparr>"
  have ls: "stateListeners b = [2, 1]" "state b = Some [''value1'' \<mapsto> ''a'']"
    by (simp_all add: b_def onStateUpdate_def fresh_bot_def new_Bot_def)
  have m: "[''value1'' \<mapsto> ''a''] ++ [''value2'' \<mapsto> ''b''] = [''value1'' \<mapsto> ''a'', ''value2'' \<mapsto> ''b'']"
    by simp
  have q: "\<forall>l\<in>set (stateListeners b).
      \<not> throws (call_listener example_env l
            (b\<lparr>state := Some [''value1'' \<mapsto> ''a'', ''value2'' \<mapsto> ''b'']\<rparr>)
            (Some [''value1'' \<mapsto> ''a'']) [''value1'' \<mapsto> ''a'', ''value2'' \<mapsto> ''b''])"
    by (simp add: ls example_env_def throws_def)
  have "fst (snd (setState example_env [''value2'' \<mapsto> ''b''] b))
          = b\<lparr>state := Some [''value1'' \<mapsto> ''a'', ''value2'' \<mapsto> ''b'']\<rparr> \<and>
        fst (setState example_env [''value2'' \<mapsto> ''b''] b) = None \<and>
        snd (snd (setState example_env [''value2'' \<mapsto> ''b''] b))
          = map (\<lambda>l. Notified l (Some [''value1'' \<mapsto> ''a'', ''value2'' \<mapsto> ''b'']) (Some [''value1'' \<mapsto> ''a''])
                   [''value1'' \<mapsto> ''a'', ''value2'' \<mapsto> ''b'']) [2, 1]"
    using setState_merges_and_notifies[where b = b and partial = "[''value2'' \<mapsto> ''b'']"
        and e = example_env and l = 2
        and options = "\<lparr>opt_prefix = '';;'', opt_invalidCommandError = None,
                        opt_errorMessage = None\<rparr>"] q
    by (simp add: Let_def ls m)
  then have "setState example_env [''value2'' \<mapsto> ''b''] b
     = (None, b\<lparr>state := Some [''value1'' \<mapsto> ''a'', ''value2'' \<mapsto> ''b'']\<rparr>,
        map (\<lambda>l. Notified l (Some [''value1'' \<mapsto> ''a'', ''value2'' \<mapsto> ''b'']) (Some [''value1'' \<mapsto> ''a''])
                   [''value1'' \<mapsto> ''a'', ''value2'' \<mapsto> ''b'']) [2, 1])"
    by (cases "setState example_env [''value2'' \<mapsto> ''b''] b") auto
  then show ?thesis
    by (simp add: b_def onStateUpdate_def fresh_bot_def new_Bot_def)
qed

text \<open>
  Claim C8 as stated fails: listener 0 throws, and listener 1, registered after it, is
  not called.
\<close>

theorem setState_skips_listener_counterexample:
  "stateListeners listening_bot = [0, 1] \<and>
   map notified_listener (snd (snd (setState example_env [''value1'' \<mapsto> ''a''] listening_bot))) = [0]"
  by (simp add: setState_unfold listening_bot_fields example_env_def)

text \<open>
  Claim C10: every listener is called on a bot that already has the merged state; and
  when a listener throws synchronously (the listeners before it did not), the error
  leaves \<^verbatim>\<open>setState\<close> and the bot keeps the merged state.
\<close>

theorem setState_keeps_state_when_listener_throws:
  "(let previous = state b;
        nxt = (case previous of None \<Rightarrow> Map.empty | Some s \<Rightarrow> s) ++ partial;
        b' = b\<lparr>state := Some nxt\<rparr>
    in (\<forall>n\<in>set (snd (snd (setState e partial b))). notified_this_state n = Some nxt) \<and>
       (stateListeners b = ls1 @ l # ls2 \<and>
        (\<forall>x\<in>set ls1. \<not> throws (call_listener e x b' previous nxt)) \<and>
        call_listener e l b' previous nxt = Throws err \<longrightarrow>
          fst (setState e partial b) = Some err \<and>
          state (fst (snd (setState e partial b))) = Some nxt \<and>
          fst (snd (setState e partial b)) = b'))"
proof -
  define previous where "previous = state b"
  define nxt where "nxt = (case previous of None \<Rightarrow> Map.empty | Some s \<Rightarrow> s) ++ partial"
  define b' where "b' = b\<lparr>state := Some nxt\<rparr>"
  have st: "setState e partial b =
      (fst (notify e b' previous nxt (stateListeners b)), b',
       snd (notify e b' previous nxt (stateListeners b)))"
    unfolding b'_def nxt_def previous_def by (rule setState_unfold)
  have sb: "state b' = Some nxt" by (simp add: b'_def)
  have 1: "\<forall>n\<in>set (snd (snd (setState e partial b))). notified_this_state n = Some nxt"
    unfolding st using notify_calls[of e b' previous nxt "stateListeners b"] sb by auto
  have 2: "fst (setState e partial b) = Some err \<and>
          state (fst (snd (setState e partial b))) = Some nxt \<and>
          fst (snd (setState e partial b)) = b'"
    if "stateListeners b = ls1 @ l # ls2"
       "\<forall>x\<in>set ls1. \<not> throws (call_listener e x b' previous nxt)"
       "call_listener e l b' previous nxt = Throws err"
    using notify_first_throw[OF that(2,3), of ls2] that(1) sb by (simp add: st)
  show ?thesis
    unfolding Let_def previous_def[symmetric] nxt_def[symmetric] b'_def[symmetric]
    using 1 2 by blast
qed

text \<open>The theorem on a bot whose second listener throws.\<close>

theorem setState_keeps_state_when_listener_throws_witness:
  "fst (setState example_env [''value1'' \<mapsto> ''a''] (onStateUpdate 0 (onStateUpdate 1 (fresh_bot '';;''))))
     = Some (Error ''Deaf'') \<and>
   state (fst (snd (setState example_env [''value1'' \<mapsto> ''a'']
                      (onStateUpdate 0 (onStateUpdate 1 (fresh_bot '';;''))))))
     = Some [''value1'' \<mapsto> ''a'']"
proof -
  define b :: "string bot" where "b = onStateUpdate 0 (onStateUpdate 1 (fresh_bot '';;''))"
  have ls: "stateListeners b = [1] @ 0 # []" "state b = None"
    by (simp_all add: b_def onStateUpdate_def fresh_bot_def new_Bot_def)
  have h: "(\<forall>x\<in>set [1]. \<not> throws (call_listener example_env x
               (b\<lparr>state := Some [''value1'' \<mapsto> ''a'']\<rparr>) None [''value1'' \<mapsto> ''a''])) \<and>
           call_listener example_env 0 (b\<lparr>state := Some [''value1'' \<mapsto> ''a'']\<rparr>) None
               [''value1'' \<mapsto> ''a''] = Throws (Error ''Deaf'')"
    by (simp add: example_env_def throws_def)
  show ?thesis
    using setState_keeps_state_when_listener_throws[of b "[''value1'' \<mapsto> ''a'']" example_env
        "[1]" 0 "[]" "Error ''Deaf''"] ls h
    unfolding b_def[symmetric] by (simp add: Let_def)
qed

section \<open>Properties of the dispatcher\<close>

lemma receiving_bot_commands:
  "commands receiving_bot =
     [(''echo'', Command 1 [] (Some (Static ''Echoes back what you say''))),
      (''about'', Command 2 [] (Some (Dynamic 0))),
      (''error'', Command 3 [] None),
      (''broken'', Command 4 [] (Some (Dynamic 1))),
      (''later'', Command 6 [] None)]"
  "prefix receiving_bot = '';;''"
  "errorMessage receiving_bot = ''Unexpected error completing your request. Check console for error log.''"
  by (simp_all add: receiving_bot_def registers_def register_def Let_def weakDive_def dive_step_def
      path_plugin_def fresh_bot_def new_Bot_def)

lemma dollar_bot_fields:
  "commands dollar_bot = [(''echo'', Command 1 [] None)]" "prefix dollar_bot = ''$''"
  by (simp_all add: dollar_bot_def registers_def register_def Let_def weakDive_def dive_step_def
      path_plugin_def fresh_bot_def new_Bot_def)


lemmas receive_eval =
  receive_def parse_def startsWith_def trim_def is_space_def weakDive_def dive_step_def
  regexp_def rest_pattern_def re_meta_def re_atom_def re_remove_first_def onHelp_def
  onError_def onInvalidCommand_def Let_def

subsection \<open>The request for literal prefixes and paths\<close>

lemma re_atom_literal: "re_literal c \<Longrightarrow> re_atom c = Lit c"
  by (simp add: re_literal_def re_atom_def)

lemma re_parse_literals:
  "\<forall>c\<in>set p. re_literal c \<Longrightarrow>
     re_parse (p @ r) = map_option ((@) (map Lit p)) (re_parse r)"
proof (induction p)
  case Nil
  show ?case by (simp add: option.map_ident)
next
  case (Cons c p)
  then have "c \<noteq> CHR 0x5C" "\<not> re_meta c" "re_atom c = Lit c"
    by (auto simp: re_meta_def re_literal_def re_atom_def)
  then show ?case using Cons by (simp add: option.map_comp comp_def)
qed

lemma re_parse_path:
  "\<forall>t\<in>set thr. \<forall>c\<in>set t. re_literal c \<Longrightarrow>
     re_parse (join [CHR 0x5C, CHR ''s'', CHR ''+''] thr @ r)
       = map_option ((@) (join [SpacesPlus] (map (map Lit) thr))) (re_parse r)"
proof (induction "[CHR 0x5C, CHR ''s'', CHR ''+'']" thr rule: join.induct)
  case 1
  show ?case by (cases "re_parse r") simp_all
next
  case (2 x)
  then show ?case by (simp add: re_parse_literals)
next
  case (3 x y ys)
  then show ?case
    by (cases "re_parse r") (simp_all add: re_parse_literals)
qed

lemma re_parse_rest_pattern:
  assumes "\<forall>c\<in>set p. re_literal c" "\<forall>t\<in>set thr. \<forall>c\<in>set t. re_literal c"
  shows "re_parse (rest_pattern p thr)
           = Some (Bol # map Lit p @ join [SpacesPlus] (map (map Lit) thr) @ [SpacesStar])"
proof -
  have "re_parse [CHR 0x5C, CHR ''s'', CHR ''*''] = Some [SpacesStar]" by simp
  then show ?thesis
    using assms
    by (simp add: rest_pattern_def re_parse_literals re_parse_path re_meta_def re_atom_def)
qed

lemma re_match_literals:
  "re_match (map Lit u @ r) b (u @ s) = re_match r (b \<and> u = []) s"
  by (induction u arbitrary: b) auto

lemma first_some_greedy:
  "lo \<le> n \<Longrightarrow> f n = Some x \<Longrightarrow> first_some f (rev [lo ..< Suc n]) = Some x"
  by simp


lemma words_decompose:
  assumes "s \<noteq> []" "\<not> is_space (hd s)"
  shows "words s = takeWhile (\<lambda>c. \<not> is_space c) s # words (dropWhile (\<lambda>c. \<not> is_space c) s)"
  using assms by (cases s) (auto simp: words_nonspace)

lemma first_word_split:
  assumes "s \<noteq> []" "\<not> is_space (hd s)" "words s = t # ts"
  shows "s = t @ dropWhile (\<lambda>c. \<not> is_space c) s"
    and "words (dropWhile (\<lambda>c. \<not> is_space c) s) = ts"
    and "t \<noteq> []"
  using words_decompose[OF assms(1,2)] assms by (cases s; auto)+

lemma re_match_path:
  assumes "thr \<noteq> []" "take (length thr) (words s) = thr" "s \<noteq> []" "\<not> is_space (hd s)"
  shows "re_match (join [SpacesPlus] (map (map Lit) thr) @ [SpacesStar]) b s
           = Some (strip_path thr s)"
  using assms
proof (induction thr arbitrary: s b)
  case Nil
  then show ?case by simp
next
  case (Cons t ts)
  obtain ws' where w: "words s = t # ws'"
    using Cons.prems(2) by (cases "words s") auto
  define s' where "s' = dropWhile (\<lambda>c. \<not> is_space c) s"
  have s: "s = t @ s'" and ws': "words s' = ws'" and t: "t \<noteq> []"
    using first_word_split[OF Cons.prems(3,4) w] by (simp_all add: s'_def)
  have drop_t: "drop (length t) s = s'" using s by (metis append_eq_conv_conj)
  define n where "n = length (takeWhile is_space s')"
  have dn: "drop n s' = dropWhile is_space s'"
    unfolding n_def by (simp add: dropWhile_eq_drop)
  show ?case
  proof (cases ts)
    case Nil
    have "re_match (map Lit t @ [SpacesStar]) b (t @ s') = re_match [SpacesStar] (b \<and> t = []) s'"
      by (rule re_match_literals)
    also have "\<dots> = Some (drop n s')"
      unfolding n_def by simp
    finally show ?thesis
      using Nil s dn drop_t by simp
  next
    case (Cons t2 ts2)
    have tk: "take (length ts) ws' = ts"
      using Cons.prems(2) w by simp
    then have ne: "ws' \<noteq> []" using Cons by auto
    then have s'_ne: "s' \<noteq> []" using ws' by auto
    have "is_space (hd s')"
      using hd_dropWhile[of "\<lambda>c. \<not> is_space c" s] s'_ne unfolding s'_def by auto
    then have n1: "1 \<le> n"
      unfolding n_def using s'_ne by (cases s') auto
    define s'' where "s'' = dropWhile is_space s'"
    have w'': "words s'' = ws'" using ws' by (simp add: s''_def)
    then have s''_ne: "s'' \<noteq> []" using ne by auto
    have hd'': "\<not> is_space (hd s'')"
      using hd_dropWhile[of is_space s'] s''_ne unfolding s''_def by auto
    have IH: "re_match (join [SpacesPlus] (map (map Lit) ts) @ [SpacesStar]) False s''
                = Some (strip_path ts s'')"
      using Cons.IH[of s'' False] tk w'' s''_ne hd'' Cons by simp
    have "re_match (join [SpacesPlus] (map (map Lit) (t # ts)) @ [SpacesStar]) b (t @ s')
            = re_match (map Lit t @ SpacesPlus # join [SpacesPlus] (map (map Lit) ts) @ [SpacesStar])
                b (t @ s')"
      using Cons by simp
    also have "\<dots> = re_match (SpacesPlus # join [SpacesPlus] (map (map Lit) ts) @ [SpacesStar])
                (b \<and> t = []) s'"
      by (rule re_match_literals)
    also have "\<dots> = first_some
                (\<lambda>k. re_match (join [SpacesPlus] (map (map Lit) ts) @ [SpacesStar]) False (drop k s'))
                (rev [1 ..< Suc n])"
      unfolding n_def by simp
    also have "\<dots> = Some (strip_path ts s'')"
      using n1 IH dn by (intro first_some_greedy) (simp_all add: s''_def)
    finally show ?thesis
      using s drop_t by (simp add: s''_def)
  qed
qed

lemma words_strip_path:
  assumes "take (length thr) (words s) = thr" "s \<noteq> [] \<longrightarrow> \<not> is_space (hd s)"
  shows "words (strip_path thr s) = drop (length thr) (words s)"
  using assms
proof (induction thr arbitrary: s)
  case Nil
  then show ?case by simp
next
  case (Cons t ts)
  obtain ws' where w: "words s = t # ws'"
    using Cons.prems(1) by (cases "words s") auto
  then have ne: "s \<noteq> []" by auto
  then have hd: "\<not> is_space (hd s)" using Cons.prems(2) by simp
  define s' where "s' = dropWhile (\<lambda>c. \<not> is_space c) s"
  have s: "s = t @ s'" and ws': "words s' = ws'"
    using first_word_split[OF ne hd w] by (simp_all add: s'_def)
  have drop_t: "drop (length t) s = s'" using s by (metis append_eq_conv_conj)
  define s'' where "s'' = dropWhile is_space s'"
  have 1: "take (length ts) (words s'') = ts"
    using Cons.prems(1) w ws' by (simp add: s''_def)
  have 2: "s'' \<noteq> [] \<longrightarrow> \<not> is_space (hd s'')"
    using hd_dropWhile[of is_space s'] unfolding s''_def by auto
  have "words (strip_path ts s'') = drop (length ts) (words s'')"
    using Cons.IH[OF 1 2] .
  then show ?case
    using w ws' drop_t by (simp add: s''_def)
qed

lemma words_glue:
  assumes "\<forall>c\<in>set u. \<not> is_space c" "s \<noteq> []" "\<not> is_space (hd s)"
  shows "words (u @ s) = (u @ hd (words s)) # tl (words s)"
  using assms
proof (induction u)
  case Nil
  have "words s \<noteq> []"
    using Nil.prems(2,3) words_eq_Nil[of s] hd_in_set[of s] by auto
  then show ?case by simp
next
  case (Cons c u)
  have "hd (u @ s) = (if u = [] then hd s else hd u)" by (cases u) auto
  then have "u @ s \<noteq> []" "\<not> is_space (hd (u @ s))"
    using Cons.prems by auto
  then have "words (c # u @ s) = (c # hd (words (u @ s))) # tl (words (u @ s))"
    using Cons.prems by (simp add: words_Cons)
  then show ?case using Cons by simp
qed

lemma parse_plain_words:
  assumes "p \<noteq> []" "\<forall>c\<in>set p. \<not> is_space c" "parse p m \<noteq> []"
  shows "m = p @ drop (length p) m"
    and "parse p m = words (drop (length p) m)"
    and "drop (length p) m \<noteq> []"
    and "\<not> is_space (hd (drop (length p) m))"
proof -
  have pp: "parse p m =
     (if startsWith m p \<and> hd (words m) \<noteq> p
      then drop (length p) (hd (words m)) # tl (words m) else [])"
    using assms(1,2) by (rule parse_plain)
  then have sw: "startsWith m p" and hw: "hd (words m) \<noteq> p"
    using assms(3) by (auto split: if_splits)
  define s where "s = drop (length p) m"
  show m: "m = p @ drop (length p) m"
    using sw by (metis append_take_drop_id startsWith_def)
  then have ms: "m = p @ s" by (simp add: s_def)
  have "\<not> (s = [] \<or> is_space (hd s))"
    using words_prefix_space[OF assms(1,2), of s] hw ms by auto
  then have s: "s \<noteq> []" "\<not> is_space (hd s)" by auto
  then show "drop (length p) m \<noteq> []" "\<not> is_space (hd (drop (length p) m))"
    by (simp_all add: s_def)
  have ws: "words s \<noteq> []"
    using s words_eq_Nil[of s] hd_in_set[of s] by auto
  have "words m = (p @ hd (words s)) # tl (words s)"
    using words_glue[OF assms(2) s] ms by simp
  then have "parse p m = hd (words s) # tl (words s)"
    using pp sw hw by simp
  then show "parse p m = words (drop (length p) m)"
    using ws by (simp add: s_def)
qed

text \<open>
  The request of a dispatch, when the prefix and the path walked are made of characters
  that stand for themselves in a regular expression: the action of the command found
  is called once, with the path walked, the tokens after it, and as \<open>rest\<close> the text
  after the prefix without the path, trimmed; the words of \<open>rest\<close> are the arguments.
\<close>

lemma receive_plain_request:
  fixes b :: "'v bot"
  assumes "prefix b \<noteq> []" and "\<forall>x\<in>set (prefix b). \<not> is_space x \<and> re_literal x"
    and "\<not> author_bot msg"
    and "weakDive b (parse (prefix b) (content msg)) = \<lparr>through = thr, command = Some c\<rparr>"
    and "\<forall>t\<in>set thr. \<forall>x\<in>set t. re_literal x"
    and "\<not> (length (drop (length thr) (parse (prefix b) (content msg))) = 1 \<and>
            drop (length thr) (parse (prefix b) (content msg)) ! 0 = ''--help'' \<and>
            help_of c \<noteq> None)"
  defines "rq \<equiv> \<lparr>req_message = msg, req_components = parse (prefix b) (content msg),
                   req_commands = thr, req_command = Some c,
                   req_rest = trim (strip_path thr (drop (length (prefix b)) (content msg))),
                   req_args = drop (length thr) (parse (prefix b) (content msg))\<rparr>"
  shows "receive e b msg =
           (RetVoid,
            Invoked (action c) rq #
              (case call_action e (action c) b rq of
                 Returns \<Rightarrow> []
               | Throws err \<Rightarrow> [ConsoleError err, Replied (Text (errorMessage b))]
               | Rejects err \<Rightarrow> [ConsoleError err, Replied (Text (errorMessage b))]))"
    and "words (req_rest rq) = req_args rq"
proof -
  define cs where "cs = parse (prefix b) (content msg)"
  define s where "s = drop (length (prefix b)) (content msg)"
  have wd: "weakDive b cs = \<lparr>through = thr, command = Some c\<rparr>"
    using assms(4) by (simp add: cs_def)
  have thr_take: "thr = take (length thr) cs"
    using weakDive_spec(2)[of b cs] wd by simp
  have "command (weakDive b cs) = strictDive_loop (commands b) None (take (length thr) cs)"
    using weakDive_spec(3)[of b cs] wd by simp
  then have thr_ne: "thr \<noteq> []" using wd thr_take by (cases thr) auto
  then have cs_ne: "cs \<noteq> []" using thr_take by auto
  have ws_free: "\<forall>x\<in>set (prefix b). \<not> is_space x" using assms(2) by blast
  have content: "content msg = prefix b @ s"
    and cs_words: "cs = words s"
    and s_ne: "s \<noteq> []" and s_hd: "\<not> is_space (hd s)"
    using parse_plain_words[OF assms(1) ws_free, of "content msg"] cs_ne
    unfolding cs_def s_def by simp_all
  have lits: "\<forall>x\<in>set (prefix b). re_literal x" using assms(2) by blast
  have pat: "re_parse (rest_pattern (prefix b) thr)
           = Some (Bol # map Lit (prefix b) @ join [SpacesPlus] (map (map Lit) thr) @ [SpacesStar])"
    using lits assms(5) by (rule re_parse_rest_pattern)
  have tk: "take (length thr) (words s) = thr" using thr_take cs_words by simp
  have "re_match (Bol # map Lit (prefix b) @ join [SpacesPlus] (map (map Lit) thr) @ [SpacesStar])
          True (prefix b @ s)
        = re_match (join [SpacesPlus] (map (map Lit) thr) @ [SpacesStar])
            (True \<and> prefix b = []) s"
    using re_match_literals[of "prefix b" _ True s] by simp
  also have "\<dots> = Some (strip_path thr s)"
    using thr_ne tk s_ne s_hd by (rule re_match_path)
  finally have "re_search
       (Bol # map Lit (prefix b) @ join [SpacesPlus] (map (map Lit) thr) @ [SpacesStar])
       True [] (content msg) = Some ([], strip_path thr s)"
    using content assms(1) by (cases "prefix b") auto
  then have rem: "re_remove_first
       (Bol # map Lit (prefix b) @ join [SpacesPlus] (map (map Lit) thr) @ [SpacesStar])
       (content msg) = strip_path thr s"
    by (simp add: re_remove_first_def)
  have rq: "rq = \<lparr>req_message = msg, req_components = cs, req_commands = thr,
                  req_command = Some c, req_rest = trim (strip_path thr s),
                  req_args = drop (length thr) cs\<rparr>"
    by (simp add: rq_def cs_def s_def)
  have nohelp: "\<not> (length (drop (length thr) cs) = 1 \<and> drop (length thr) cs ! 0 = ''--help'' \<and>
            help_of c \<noteq> None)"
    using assms(6) by (simp add: cs_def)
  show "receive e b msg =
           (RetVoid,
            Invoked (action c) rq #
              (case call_action e (action c) b rq of
                 Returns \<Rightarrow> []
               | Throws err \<Rightarrow> [ConsoleError err, Replied (Text (errorMessage b))]
               | Rejects err \<Rightarrow> [ConsoleError err, Replied (Text (errorMessage b))]))"
    using assms(3) cs_ne nohelp
    by (auto simp: receive_def cs_def[symmetric] Let_def wd regexp_def pat rem rq onError_def
        split: outcome.splits)
  have "words (strip_path thr s) = drop (length thr) (words s)"
    using tk s_hd by (intro words_strip_path) auto
  then show "words (req_rest rq) = req_args rq"
    by (simp add: rq cs_words)
qed

text \<open>The request of the test \<^verbatim>\<open>should pass request to command action\<close>, on a shorter
  message with a run of white space in it.\<close>

lemma receive_echo_example:
  "receive example_env receiving_bot \<lparr>author_bot = False, content = '';;echo Hi!  bot ''\<rparr> =
     (RetVoid,
      [Invoked 1
         \<lparr>req_message = \<lparr>author_bot = False, content = '';;echo Hi!  bot ''\<rparr>,
          req_components = [''echo'', ''Hi!'', ''bot''],
          req_commands = [''echo''],
          req_command = Some (Command 1 [] (Some (Static ''Echoes back what you say''))),
          req_rest = ''Hi!  bot'',
          req_args = [''Hi!'', ''bot'']\<rparr>])"
  by (simp add: receive_eval receiving_bot_commands example_env_def)

subsection \<open>Dispatch\<close>

text \<open>
  Claim C7 on a bot whose prefix is the dollar sign, for the message \<^verbatim>\<open>$echo hi\<close>: the
  action of \<^verbatim>\<open>echo\<close> is called once, with the path \<^verbatim>\<open>echo\<close> and the argument
  \<^verbatim>\<open>hi\<close>, but \<open>rest\<close> is the whole message. The prefix is put into the regular
  expression as it is, where the dollar sign matches the end of the input only, so
  nothing is removed.
\<close>

theorem receive_rest_keeps_dollar_prefix:
  "receive example_env dollar_bot \<lparr>author_bot = False, content = ''$echo hi''\<rparr> =
     (RetVoid,
      [Invoked 1
         \<lparr>req_message = \<lparr>author_bot = False, content = ''$echo hi''\<rparr>,
          req_components = [''echo'', ''hi''], req_commands = [''echo''],
          req_command = Some (Command 1 [] None),
          req_rest = ''$echo hi'', req_args = [''hi'']\<rparr>])"
  by (simp add: receive_eval dollar_bot_fields example_env_def)











end
